theory Spec2Isabelle
  imports Complex_Main "HOL-Library.Extended_Nat" "HOL-Library.Multiset"
begin

section \<open>Numbers\<close>

text \<open>
  The program computes with JavaScript numbers. Finite numbers are modelled by exact
  reals: rounding error, overflow and the sign of zero are not modelled. The integer
  valued parameters (the point count \<open>n\<close>, the ring count \<open>layers\<close>, loop counters)
  are natural numbers. The point generators never divide by zero in a value they use,
  so their numbers stay finite and are plain reals. The statistics produce
  \<open>Infinity\<close> and \<open>NaN\<close> on ordinary inputs, so they compute in \<open>jsnum\<close> below.
\<close>

type_synonym point = "real \<times> real"

text \<open>
  \<open>val.toFixed(prec)\<close> writes the decimal with \<open>prec\<close> fraction digits nearest to
  \<open>val\<close>, a tie going away from zero; from \<open>10^21\<close> on it writes the number itself.
  \<open>parseFloat\<close> reads the decimal back. \<open>toFixed\<close> is the value the string denotes.
\<close>

definition toFixed :: "real \<Rightarrow> nat \<Rightarrow> real" where
  "toFixed x f =
     (if \<bar>x\<bar> \<ge> 10 ^ 21 then x
      else sgn x * (of_int \<lfloor>\<bar>x\<bar> * 10 ^ f + 1 / 2\<rfloor> / 10 ^ f))"

definition roundFloat :: "real \<Rightarrow> nat \<Rightarrow> real" where
  "roundFloat val prec = toFixed val prec"

section \<open>Point generators\<close>

definition radius :: "real \<Rightarrow> real \<Rightarrow> real \<Rightarrow> real" where
  "radius k n b =
     (if k > n - b then 1 else sqrt (k - 1 / 2) / sqrt (n - (b + 1) / 2))"

text \<open>
  The fields of \<open>GenProps\<close> carry the prefix \<open>gp_\<close> (and those of the argument
  object of \<open>generateLatticePoints\<close> the prefix \<open>lp_\<close>), since \<open>n\<close> and \<open>size\<close>
  are wanted as variable names. The mode is the string the control panel delivers.
\<close>

record GenProps =
  gp_n :: nat
  gp_alpha :: real
  gp_mode :: string
  gp_size :: real
  gp_layers :: nat
  gp_nPerLayer :: real
  gp_twist :: real

subsection \<open>Sunflower\<close>

definition phi :: real where
  "phi = (1 + sqrt 5) / 2"

definition sunflowerStride :: "bool \<Rightarrow> real" where
  "sunflowerStride geodesic = (if geodesic then 360 * phi else (2 * pi) / phi ^ 2)"

text \<open>The angle \<open>theta\<close> of step \<open>k\<close>, as it is handed to \<open>Math.cos\<close> and \<open>Math.sin\<close>.\<close>

definition sunflowerTheta :: "nat \<Rightarrow> real \<Rightarrow> real" where
  "sunflowerTheta k angleStride = real k * angleStride"

text \<open>The point of step \<open>k\<close> before its coordinates are rounded.\<close>

definition sunflowerRaw :: "nat \<Rightarrow> real \<Rightarrow> real \<Rightarrow> real \<Rightarrow> nat \<Rightarrow> point" where
  "sunflowerRaw n0 b angleStride size0 k =
     (let r = radius (real k) (real n0) b * (size0 / 2);
          theta = sunflowerTheta k angleStride;
          x = r * cos theta;
          y = r * sin theta
      in (x, y))"

text \<open>The loop \<open>for (let k = 1; k <= n; k++)\<close>, from counter \<open>k\<close> on.\<close>

function sunflowerLoop ::
  "nat \<Rightarrow> real \<Rightarrow> real \<Rightarrow> real \<Rightarrow> nat \<Rightarrow> point list \<Rightarrow> point list" where
  "sunflowerLoop n0 b angleStride size0 k points =
     (if k \<le> n0 then
        (let (x, y) = sunflowerRaw n0 b angleStride size0 k
         in sunflowerLoop n0 b angleStride size0 (Suc k)
              (points @ [(roundFloat x 2, roundFloat y 2)]))
      else points)"
  by pat_completeness auto
termination
  by (relation "measure (\<lambda>(n0, b, angleStride, size0, k, points). Suc n0 - k)") auto

declare sunflowerLoop.simps [simp del]

text \<open>\<open>Math.round\<close> is \<open>\<lfloor>x + 1/2\<rfloor>\<close>, which is \<^const>\<open>round\<close>.\<close>

definition generateSunflowerPoints :: "nat \<Rightarrow> real \<Rightarrow> bool \<Rightarrow> real \<Rightarrow> point list" where
  "generateSunflowerPoints n0 alpha0 geodesic size0 =
     (let angleStride = sunflowerStride geodesic;
          b = round (alpha0 * sqrt (real n0))
      in sunflowerLoop n0 (of_int b) angleStride size0 1 [])"

subsection \<open>Lattice\<close>

text \<open>The inner loop \<open>for (let i = 0; i < pointsPerLayer; i++)\<close> of one ring.\<close>

definition latticeRaw :: "real \<Rightarrow> real \<Rightarrow> real \<Rightarrow> nat \<Rightarrow> nat \<Rightarrow> point" where
  "latticeRaw angleStride rad twist0 layer i =
     (let theta = real i * angleStride + twist0 * real layer * pi;
          x = rad * cos theta;
          y = rad * sin theta
      in (x, y))"

function ringLoop ::
  "real \<Rightarrow> real \<Rightarrow> real \<Rightarrow> real \<Rightarrow> nat \<Rightarrow> nat \<Rightarrow> point list \<Rightarrow> point list" where
  "ringLoop pointsPerLayer angleStride rad twist0 layer i points =
     (if real i < pointsPerLayer then
        (let (x, y) = latticeRaw angleStride rad twist0 layer i
         in ringLoop pointsPerLayer angleStride rad twist0 layer (Suc i)
              (points @ [(roundFloat x 2, roundFloat y 2)]))
      else points)"
  by pat_completeness auto
termination
proof (relation "measure (\<lambda>(ppl, angleStride, rad, twist0, layer, i, points).
        nat \<lceil>ppl\<rceil> - i)")
  show "wf (measure (\<lambda>(ppl, angleStride, rad, twist0, layer, i, points).
        nat \<lceil>ppl\<rceil> - i))"
    by simp
next
  fix pointsPerLayer angleStride rad twist0 :: real
  fix layer i :: nat and points :: "point list" and x xa y :: real
  assume "real i < pointsPerLayer"
  then have "i < nat \<lceil>pointsPerLayer\<rceil>"
    by linarith
  then show "((pointsPerLayer, angleStride, rad, twist0, layer, Suc i,
               points @ [(roundFloat xa 2, roundFloat y 2)]),
              pointsPerLayer, angleStride, rad, twist0, layer, i, points)
             \<in> measure (\<lambda>(ppl, angleStride, rad, twist0, layer, i, points).
                  nat \<lceil>ppl\<rceil> - i)"
    by simp
qed

declare ringLoop.simps [simp del]

text \<open>
  The outer loop \<open>for (let layer = 0; layer < layers; layer++)\<close>. The stride
  \<open>2\<pi> / pointsPerLayer\<close> divides by zero only when the ring has no point, where the
  inner loop does not read it.
\<close>

function layerLoop ::
  "real \<Rightarrow> nat \<Rightarrow> real \<Rightarrow> real \<Rightarrow> nat \<Rightarrow> point list \<Rightarrow> point list" where
  "layerLoop size0 layers0 nPerLayer0 twist0 layer points =
     (if layer < layers0 then
        (let pointsPerLayer = 1 + real layer * nPerLayer0;
             angleStride = (2 * pi) / pointsPerLayer;
             rad = (real layer * size0) / (2 * real layers0)
         in layerLoop size0 layers0 nPerLayer0 twist0 (Suc layer)
              (ringLoop pointsPerLayer angleStride rad twist0 layer 0 points))
      else points)"
  by pat_completeness auto
termination
  by (relation "measure (\<lambda>(size0, layers0, nPerLayer0, twist0, layer, points).
        layers0 - layer)") auto

declare layerLoop.simps [simp del]

text \<open>
  The thinning loop \<open>for (let i = 0; i < points.length; i += stride)\<close>. The stride is
  \<open>Math.floor(points.length / n)\<close>, which is \<open>Infinity\<close> for \<open>n = 0\<close>; a stride of
  zero would never leave the loop, so the loop is a partial function.
\<close>

partial_function (option) thinLoop ::
  "point list \<Rightarrow> enat \<Rightarrow> enat \<Rightarrow> point list \<Rightarrow> point list option" where
  "thinLoop points stride i newPoints =
     (if i < enat (length points) then
        thinLoop points stride (i + stride) (newPoints @ [points ! the_enat i])
      else Some newPoints)"

record LatticeProps =
  lp_n :: nat
  lp_size :: real
  lp_layers :: nat
  lp_nPerLayer :: real
  lp_twist :: real

definition generateLatticePoints :: "LatticeProps \<Rightarrow> point list option" where
  "generateLatticePoints p =
     (let points = layerLoop (lp_size p) (lp_layers p) (lp_nPerLayer p) (lp_twist p) 0 []
      in if length points > lp_n p then
           (let stride = (if lp_n p = 0 then \<infinity> else enat (length points div lp_n p))
            in thinLoop points stride 0 [])
         else Some points)"

subsection \<open>Dispatch on the mode\<close>

definition generatePoints :: "GenProps \<Rightarrow> point list option" where
  "generatePoints genProps =
     (if gp_mode genProps = ''sunflower'' \<or> gp_mode genProps = ''sunflowerGeodesic'' then
        Some (generateSunflowerPoints (gp_n genProps) (gp_alpha genProps)
                (gp_mode genProps = ''sunflowerGeodesic'') (gp_size genProps))
      else if gp_mode genProps = ''lattice'' then
        generateLatticePoints \<lparr>lp_n = gp_n genProps, lp_size = gp_size genProps,
          lp_layers = gp_layers genProps, lp_nPerLayer = gp_nPerLayer genProps,
          lp_twist = gp_twist genProps\<rparr>
      else Some [])"

section \<open>Point statistics\<close>

text \<open>
  A number of the statistics: a finite real, \<open>Infinity\<close>, \<open>-Infinity\<close> or \<open>NaN\<close>,
  with the arithmetic of IEEE 754 on the three special values. A zero divisor counts
  as positive zero.
\<close>

datatype jsnum = Num real | PosInf | NegInf | NaN

fun jadd :: "jsnum \<Rightarrow> jsnum \<Rightarrow> jsnum" where
  "jadd NaN _ = NaN"
| "jadd _ NaN = NaN"
| "jadd (Num a) (Num b) = Num (a + b)"
| "jadd PosInf NegInf = NaN"
| "jadd NegInf PosInf = NaN"
| "jadd PosInf _ = PosInf"
| "jadd _ PosInf = PosInf"
| "jadd NegInf _ = NegInf"
| "jadd _ NegInf = NegInf"

fun jneg :: "jsnum \<Rightarrow> jsnum" where
  "jneg (Num a) = Num (- a)"
| "jneg PosInf = NegInf"
| "jneg NegInf = PosInf"
| "jneg NaN = NaN"

definition jsub :: "jsnum \<Rightarrow> jsnum \<Rightarrow> jsnum" where
  "jsub a b = jadd a (jneg b)"

fun jdiv :: "jsnum \<Rightarrow> jsnum \<Rightarrow> jsnum" where
  "jdiv NaN _ = NaN"
| "jdiv _ NaN = NaN"
| "jdiv (Num a) (Num b) =
     (if b = 0 then (if a = 0 then NaN else if a > 0 then PosInf else NegInf)
      else Num (a / b))"
| "jdiv (Num a) _ = Num 0"
| "jdiv PosInf (Num b) = (if b \<ge> 0 then PosInf else NegInf)"
| "jdiv NegInf (Num b) = (if b \<ge> 0 then NegInf else PosInf)"
| "jdiv _ _ = NaN"

fun jabs :: "jsnum \<Rightarrow> jsnum" where
  "jabs (Num a) = Num \<bar>a\<bar>"
| "jabs PosInf = PosInf"
| "jabs NegInf = PosInf"
| "jabs NaN = NaN"

text \<open>The comparison \<open>a < b\<close>: false as soon as one side is \<open>NaN\<close>.\<close>

fun jless :: "jsnum \<Rightarrow> jsnum \<Rightarrow> bool" where
  "jless (Num a) (Num b) = (a < b)"
| "jless (Num a) PosInf = True"
| "jless NegInf (Num b) = True"
| "jless NegInf PosInf = True"
| "jless _ _ = False"

text \<open>
  \<open>Math.min(...xs)\<close> and \<open>Math.max(...xs)\<close>: \<open>Infinity\<close> and \<open>-Infinity\<close> without
  arguments, \<open>NaN\<close> as soon as one argument is \<open>NaN\<close>.
\<close>

definition jmin2 :: "jsnum \<Rightarrow> jsnum \<Rightarrow> jsnum" where
  "jmin2 a b = (if a = NaN \<or> b = NaN then NaN else if jless b a then b else a)"

definition jmax2 :: "jsnum \<Rightarrow> jsnum \<Rightarrow> jsnum" where
  "jmax2 a b = (if a = NaN \<or> b = NaN then NaN else if jless a b then b else a)"

definition mathMin :: "jsnum list \<Rightarrow> jsnum" where
  "mathMin xs = foldl jmin2 PosInf xs"

definition mathMax :: "jsnum list \<Rightarrow> jsnum" where
  "mathMax xs = foldl jmax2 NegInf xs"

text \<open>\<open>Math.hypot\<close> of two finite numbers.\<close>

definition hypot :: "real \<Rightarrow> real \<Rightarrow> real" where
  "hypot a b = sqrt (a * a + b * b)"

text \<open>
  \<open>xs.sort(cmp)\<close>: the stable sort by a comparator, as an insertion sort; \<open>x\<close> goes
  behind \<open>y\<close> when \<open>cmp(x, y) > 0\<close>, and a comparator value \<open>NaN\<close> counts as zero.
\<close>

fun insortBy :: "('a \<Rightarrow> 'a \<Rightarrow> jsnum) \<Rightarrow> 'a \<Rightarrow> 'a list \<Rightarrow> 'a list" where
  "insortBy cmp x [] = [x]"
| "insortBy cmp x (y # ys) =
     (if jless (Num 0) (cmp x y) then y # insortBy cmp x ys else x # y # ys)"

definition sortBy :: "('a \<Rightarrow> 'a \<Rightarrow> jsnum) \<Rightarrow> 'a list \<Rightarrow> 'a list" where
  "sortBy cmp xs = foldr (insortBy cmp) xs []"

text \<open>An array read \<open>xs[i]\<close>: \<open>undefined\<close> (here \<open>None\<close>) out of range.\<close>

definition arrayAt :: "'a list \<Rightarrow> nat \<Rightarrow> 'a option" where
  "arrayAt xs i = (if i < length xs then Some (xs ! i) else None)"

text \<open>
  The loop \<open>for (let j = 0; j < points.length; j++)\<close> that finds the least distance
  from \<open>point\<close>, the point of index \<open>i\<close>, to another point.
\<close>

function nearestLoop ::
  "point list \<Rightarrow> real \<Rightarrow> point \<Rightarrow> nat \<Rightarrow> nat \<Rightarrow> jsnum \<Rightarrow> jsnum" where
  "nearestLoop points size0 point i j minDistance =
     (if j < length points then
        (if i = j then nearestLoop points size0 point i (Suc j) minDistance
         else
           (let (x, y) = points ! j;
                distance = jdiv (Num (hypot (fst point - x) (snd point - y))) (Num size0)
            in nearestLoop points size0 point i (Suc j)
                 (if jless distance minDistance then distance else minDistance)))
      else minDistance)"
  by pat_completeness auto
termination
  by (relation "measure (\<lambda>(points, size0, point, i, j, minDistance). length points - j)")
     auto

declare nearestLoop.simps [simp del]

definition distances :: "point list \<Rightarrow> real \<Rightarrow> jsnum list" where
  "distances points size0 =
     map (\<lambda>(i, point). nearestLoop points size0 point i 0 PosInf) (List.enumerate 0 points)"

record PointStats =
  average :: jsnum
  median :: "jsnum option"
  minimum :: jsnum
  maximum :: jsnum
  maxDiffFromAverageNorm :: jsnum

definition computePointStats :: "point list \<Rightarrow> real \<Rightarrow> PointStats" where
  "computePointStats points size0 =
     (let ds = distances points size0;
          minimum0 = mathMin ds;
          maximum0 = mathMax ds;
          average0 = jdiv (foldl jadd (Num 0) ds) (Num (real (length points)));
          sorted0 = sortBy jsub ds;
          median0 = arrayAt sorted0 (length sorted0 div 2);
          maxDiff = jdiv (mathMax (map (\<lambda>distance. jabs (jsub distance average0)) ds))
                      average0
      in \<lparr>average = average0, median = median0, minimum = minimum0,
           maximum = maximum0, maxDiffFromAverageNorm = maxDiff\<rparr>)"

section \<open>What the loops compute\<close>

text \<open>
  Closed forms of the loops, used to state and prove the properties below. A point
  enters the result with both coordinates rounded.
\<close>

definition roundPoint :: "point \<Rightarrow> point" where
  "roundPoint p = (roundFloat (fst p) 2, roundFloat (snd p) 2)"

text \<open>The points of one ring, in the order the inner loop emits them.\<close>

definition ringPoints :: "real \<Rightarrow> nat \<Rightarrow> real \<Rightarrow> real \<Rightarrow> nat \<Rightarrow> point list" where
  "ringPoints size0 layers0 nPerLayer0 twist0 layer =
     map (\<lambda>j. roundPoint (latticeRaw ((2 * pi) / (1 + real layer * nPerLayer0))
                 ((real layer * size0) / (2 * real layers0)) twist0 layer j))
       [0..<nat \<lceil>1 + real layer * nPerLayer0\<rceil>]"

text \<open>The full ring-by-ring sequence, before any thinning.\<close>

definition latticeAll :: "LatticeProps \<Rightarrow> point list" where
  "latticeAll p =
     concat (map (ringPoints (lp_size p) (lp_layers p) (lp_nPerLayer p) (lp_twist p))
       [0..<lp_layers p])"

text \<open>The elements of \<open>xs\<close> at the indices \<open>0\<close>, \<open>s\<close>, \<open>2s\<close>, \<dots> below its length.\<close>

definition strided :: "'a list \<Rightarrow> nat \<Rightarrow> 'a list" where
  "strided xs s = map (\<lambda>j. xs ! (j * s)) [0..<(length xs + s - 1) div s]"

text \<open>
  What the thinning keeps of a sequence \<open>xs\<close> when \<open>m\<close> points are asked for: all of it
  when it has at most \<open>m\<close> elements, else every element at a multiple of the stride
  \<open>\<lfloor>length / m\<rfloor>\<close> (the first element alone for \<open>m = 0\<close>, where the stride is infinite).
\<close>

definition thinned :: "'a list \<Rightarrow> nat \<Rightarrow> 'a list" where
  "thinned xs m =
     (if length xs > m then
        (if m = 0 then [xs ! 0] else strided xs (length xs div m))
      else xs)"

text \<open>
  The same sequences before the coordinates are rounded: the points of one ring, the
  full ring-by-ring sequence, and the points behind the result of \<open>generatePoints\<close> in
  each mode.
\<close>

definition ringRaw :: "real \<Rightarrow> nat \<Rightarrow> real \<Rightarrow> real \<Rightarrow> nat \<Rightarrow> point list" where
  "ringRaw size0 layers0 nPerLayer0 twist0 layer =
     map (\<lambda>j. latticeRaw ((2 * pi) / (1 + real layer * nPerLayer0))
                 ((real layer * size0) / (2 * real layers0)) twist0 layer j)
       [0..<nat \<lceil>1 + real layer * nPerLayer0\<rceil>]"

definition latticeAllRaw :: "LatticeProps \<Rightarrow> point list" where
  "latticeAllRaw p =
     concat (map (ringRaw (lp_size p) (lp_layers p) (lp_nPerLayer p) (lp_twist p))
       [0..<lp_layers p])"

definition unroundedPoints :: "GenProps \<Rightarrow> point list" where
  "unroundedPoints g =
     (if gp_mode g = ''sunflower'' \<or> gp_mode g = ''sunflowerGeodesic'' then
        map (sunflowerRaw (gp_n g) (of_int (round (gp_alpha g * sqrt (real (gp_n g)))))
               (sunflowerStride (gp_mode g = ''sunflowerGeodesic'')) (gp_size g))
          [1..<Suc (gp_n g)]
      else if gp_mode g = ''lattice'' then
        thinned (latticeAllRaw \<lparr>lp_n = gp_n g, lp_size = gp_size g,
          lp_layers = gp_layers g, lp_nPerLayer = gp_nPerLayer g,
          lp_twist = gp_twist g\<rparr>) (gp_n g)
      else [])"

text \<open>The order \<open>a \<le> b\<close> of two numbers that are not \<open>NaN\<close>.\<close>

definition jle :: "jsnum \<Rightarrow> jsnum \<Rightarrow> bool" where
  "jle a b = (\<not> jless b a)"

section \<open>The loops in closed form\<close>

lemma sunflowerLoop_eq:
  "sunflowerLoop n b s sz k points =
     points @ map (\<lambda>j. roundPoint (sunflowerRaw n b s sz j)) [k..<Suc n]"
proof (induction n b s sz k points rule: sunflowerLoop.induct)
  case (1 n0 b angleStride size0 k points)
  show ?case
  proof (cases "k \<le> n0")
    case True
    obtain x y where xy: "sunflowerRaw n0 b angleStride size0 k = (x, y)"
      by (cases "sunflowerRaw n0 b angleStride size0 k")
    have up: "[k..<Suc n0] = k # [Suc k..<Suc n0]"
      using True by (simp add: upt_conv_Cons)
    show ?thesis
      using True xy "1.IH" [OF True xy [symmetric] refl]
      by (subst sunflowerLoop.simps) (simp add: up roundPoint_def del: upt_Suc)
  next
    case False
    then show ?thesis
      by (subst sunflowerLoop.simps) simp
  qed
qed

lemma ringLoop_eq:
  "ringLoop ppl s rad tw layer i points =
     points @ map (\<lambda>j. roundPoint (latticeRaw s rad tw layer j)) [i..<nat \<lceil>ppl\<rceil>]"
proof (induction ppl s rad tw layer i points rule: ringLoop.induct)
  case (1 ppl s rad tw layer i points)
  show ?case
  proof (cases "real i < ppl")
    case True
    obtain x y where xy: "latticeRaw s rad tw layer i = (x, y)"
      by (cases "latticeRaw s rad tw layer i")
    have "i < nat \<lceil>ppl\<rceil>" using True by linarith
    then have up: "[i..<nat \<lceil>ppl\<rceil>] = i # [Suc i..<nat \<lceil>ppl\<rceil>]"
      by (simp add: upt_conv_Cons)
    show ?thesis
      using True xy "1.IH" [OF True xy [symmetric] refl]
      by (subst ringLoop.simps) (simp add: up roundPoint_def del: upt_Suc)
  next
    case False
    then have "nat \<lceil>ppl\<rceil> \<le> i" by linarith
    then show ?thesis
      using False by (subst ringLoop.simps) simp
  qed
qed

lemma layerLoop_eq:
  "layerLoop sz L npl tw layer points =
     points @ concat (map (ringPoints sz L npl tw) [layer..<L])"
proof (induction sz L npl tw layer points rule: layerLoop.induct)
  case (1 sz L npl tw layer points)
  show ?case
  proof (cases "layer < L")
    case True
    have up: "[layer..<L] = layer # [Suc layer..<L]"
      using True by (simp add: upt_conv_Cons)
    have ring: "ringLoop (1 + real layer * npl) ((2 * pi) / (1 + real layer * npl))
                  ((real layer * sz) / (2 * real L)) tw layer 0 points =
                points @ ringPoints sz L npl tw layer"
      by (simp add: ringLoop_eq ringPoints_def)
    have "layerLoop sz L npl tw layer points =
            layerLoop sz L npl tw (Suc layer) (points @ ringPoints sz L npl tw layer)"
      using True by (subst layerLoop.simps) (simp add: ring Let_def)
    also have "\<dots> = (points @ ringPoints sz L npl tw layer) @
                  concat (map (ringPoints sz L npl tw) [Suc layer..<L])"
      using "1.IH" [OF True refl refl refl] by (simp only: ring)
    finally show ?thesis
      by (simp only: up) simp
  next
    case False
    then show ?thesis
      by (subst layerLoop.simps) simp
  qed
qed

lemma ceil_div_step:
  fixes l i s :: nat
  assumes "i < l" "0 < s"
  shows "(l - i + s - 1) div s = Suc ((l - (i + s) + s - 1) div s)"
proof (cases "i + s \<le> l")
  case True
  have e: "l - i + s - 1 = (l - (i + s) + s - 1) + s"
    using True assms by linarith
  have "((l - (i + s) + s - 1) + s) div s = Suc ((l - (i + s) + s - 1) div s)"
    using assms(2) by (rule_tac div_add_self2 [THEN trans]) simp_all
  then show ?thesis
    by (simp only: e)
next
  case False
  then have a: "l - (i + s) + s - 1 = s - 1" by linarith
  have c: "s * Suc 1 = s + s" "s * 1 = s"
    by simp_all
  have b: "s * 1 \<le> l - i + s - 1" "l - i + s - 1 < s * Suc 1"
    unfolding c using False assms by linarith+
  have "(l - i + s - 1) div s = 1"
    using b by (rule div_nat_eqI)
  moreover have "(s - 1) div s = 0"
    using assms(2) by simp
  ultimately show ?thesis
    by (simp only: a)
qed

lemma thinLoop_finite:
  assumes "0 < s"
  shows "thinLoop points (enat s) (enat i) acc =
           Some (acc @ map (\<lambda>j. points ! (i + j * s)) [0..<(length points - i + s - 1) div s])"
proof (induction "length points - i" arbitrary: i acc rule: less_induct)
  case less
  show ?case
  proof (cases "i < length points")
    case True
    have "length points - (i + s) < length points - i"
      using True assms by simp
    from less [OF this]
    have ih: "thinLoop points (enat s) (enat (i + s)) (acc @ [points ! i]) =
           Some ((acc @ [points ! i]) @
                 map (\<lambda>j. points ! (i + s + j * s))
                   [0..<(length points - (i + s) + s - 1) div s])" .
    have "thinLoop points (enat s) (enat i) acc =
            thinLoop points (enat s) (enat (i + s)) (acc @ [points ! i])"
      using True by (subst thinLoop.simps) simp
    also note ih
    finally have "thinLoop points (enat s) (enat i) acc =
           Some ((acc @ [points ! i]) @
                 map (\<lambda>j. points ! (i + s + j * s))
                   [0..<(length points - (i + s) + s - 1) div s])" .
    moreover have "(\<lambda>j. points ! (i + s + j * s)) = (\<lambda>j. points ! (i + Suc j * s))"
      by (simp add: add.assoc)
    moreover have "map (\<lambda>j. points ! (i + j * s))
                     [0..<Suc ((length points - (i + s) + s - 1) div s)] =
                   points ! i # map (\<lambda>j. points ! (i + Suc j * s))
                     [0..<(length points - (i + s) + s - 1) div s]"
      by (simp add: map_upt_Suc del: upt_Suc)
    ultimately show ?thesis
      by (simp only: ceil_div_step [OF True assms]) simp
  next
    case False
    then have "length points - i + s - 1 = s - 1"
      by linarith
    then have "(length points - i + s - 1) div s = 0"
      using assms by simp
    then show ?thesis
      using False by (subst thinLoop.simps) simp
  qed
qed

lemma thinLoop_strided:
  "0 < s \<Longrightarrow> thinLoop points (enat s) 0 [] = Some (strided points s)"
  using thinLoop_finite [of s points 0 "[]"] by (simp add: strided_def zero_enat_def)

lemma thinLoop_infinite:
  "points \<noteq> [] \<Longrightarrow> thinLoop points \<infinity> 0 [] = Some [points ! 0]"
  by (subst thinLoop.simps, subst thinLoop.simps) (simp add: zero_enat_def)

lemma generateLatticePoints_eq:
  "generateLatticePoints p =
     Some (if length (latticeAll p) > lp_n p then
             (if lp_n p = 0 then [latticeAll p ! 0]
              else strided (latticeAll p) (length (latticeAll p) div lp_n p))
           else latticeAll p)"
proof -
  have full: "layerLoop (lp_size p) (lp_layers p) (lp_nPerLayer p) (lp_twist p) 0 [] =
                latticeAll p"
    by (simp add: layerLoop_eq latticeAll_def)
  show ?thesis
  proof (cases "length (latticeAll p) > lp_n p")
    case False
    then show ?thesis
      by (simp add: generateLatticePoints_def full)
  next
    case True
    show ?thesis
    proof (cases "lp_n p = 0")
      case True
      with \<open>length (latticeAll p) > lp_n p\<close> have "latticeAll p \<noteq> []"
        by auto
      then show ?thesis
        using True \<open>length (latticeAll p) > lp_n p\<close>
        by (simp add: generateLatticePoints_def full thinLoop_infinite Let_def)
    next
      case False
      with True have "0 < length (latticeAll p) div lp_n p"
        by (simp add: div_greater_zero_iff)
      then show ?thesis
        using True False
        by (simp add: generateLatticePoints_def full thinLoop_strided Let_def)
    qed
  qed
qed

lemma length_strided: "length (strided xs s) = (length xs + s - 1) div s"
  by (simp add: strided_def)

lemma length_ringPoints:
  "length (ringPoints sz L npl tw layer) = nat \<lceil>1 + real layer * npl\<rceil>"
  by (simp add: ringPoints_def)

lemma length_latticeAll:
  "length (latticeAll p) =
     sum_list (map (\<lambda>layer. nat \<lceil>1 + real layer * lp_nPerLayer p\<rceil>) [0..<lp_layers p])"
  by (simp add: latticeAll_def length_concat comp_def length_ringPoints)

section \<open>Rounding\<close>

text \<open>A number with \<open>f\<close> fraction digits is left as it is, so rounding twice is rounding once.\<close>

lemma toFixed_of_int:
  "toFixed (of_int k / 10 ^ f) f = of_int k / 10 ^ f"
proof (cases "\<bar>of_int k / 10 ^ f :: real\<bar> \<ge> 10 ^ 21")
  case True
  then show ?thesis by (simp add: toFixed_def)
next
  case False
  have "\<bar>of_int k / 10 ^ f :: real\<bar> * 10 ^ f = of_int \<bar>k\<bar>"
    by (simp add: abs_divide)
  then have fl: "\<lfloor>\<bar>of_int k / 10 ^ f :: real\<bar> * 10 ^ f + 1 / 2\<rfloor> = \<bar>k\<bar>"
    by (simp only:) linarith
  have sg: "sgn (of_int k / 10 ^ f :: real) = of_int (sgn k)"
    by (simp add: sgn_if zero_less_divide_iff divide_less_0_iff)
  have "toFixed (of_int k / 10 ^ f) f = of_int (sgn k) * (of_int \<bar>k\<bar> / 10 ^ f)"
    using False by (simp only: toFixed_def fl sg if_False)
  also have "\<dots> = of_int (sgn k * \<bar>k\<bar>) / 10 ^ f"
    by simp
  also have "sgn k * \<bar>k\<bar> = k"
    by (simp add: sgn_if)
  finally show ?thesis .
qed

lemma toFixed_idem: "toFixed (toFixed x f) f = toFixed x f"
proof (cases "\<bar>x\<bar> \<ge> 10 ^ 21")
  case True
  then show ?thesis by (simp add: toFixed_def)
next
  case False
  have "toFixed x f =
          of_int ((if x > 0 then 1 else if x = 0 then 0 else - 1) *
                  \<lfloor>\<bar>x\<bar> * 10 ^ f + 1 / 2\<rfloor>) / 10 ^ f"
    using False by (simp add: toFixed_def sgn_if)
  then show ?thesis
    by (simp only: toFixed_of_int)
qed

lemma roundFloat_idem: "roundFloat (roundFloat x p) p = roundFloat x p"
  by (simp add: roundFloat_def toFixed_idem)

lemma toFixed_hundredths:
  assumes "\<bar>toFixed v f\<bar> < 10 ^ 21"
  shows "\<exists>k. toFixed v f = of_int k / 10 ^ f"
proof (cases "\<bar>v\<bar> \<ge> 10 ^ 21")
  case True
  then have "toFixed v f = v" by (simp add: toFixed_def)
  with assms True show ?thesis by simp
next
  case False
  then have "toFixed v f =
          of_int ((if v > 0 then 1 else if v = 0 then 0 else - 1) *
                  \<lfloor>\<bar>v\<bar> * 10 ^ f + 1 / 2\<rfloor>) / 10 ^ f"
    by (simp add: toFixed_def sgn_if)
  then show ?thesis ..
qed

lemma roundFloat_hundredths:
  "\<bar>roundFloat v 2\<bar> < 10 ^ 21 \<Longrightarrow> \<exists>k. roundFloat v 2 = of_int k / 100"
  using toFixed_hundredths [of v 2] by (simp add: roundFloat_def)

section \<open>Where the lattice points come from\<close>

lemma set_strided: "0 < s \<Longrightarrow> set (strided xs s) \<subseteq> set xs"
proof
  fix x assume s: "0 < s" and "x \<in> set (strided xs s)"
  then obtain j where j: "j < (length xs + s - 1) div s" and x: "x = xs ! (j * s)"
    by (auto simp: strided_def)
  from j have "Suc j \<le> (length xs + s - 1) div s" by simp
  then have "Suc j * s \<le> length xs + s - 1"
    using s by (simp add: less_eq_div_iff_mult_less_eq)
  then have "j * s < length xs"
    using s by simp
  then show "x \<in> set xs"
    using x by simp
qed

text \<open>
  Rounding commutes with the thinning, so each generator returns the rounded points of
  its unrounded sequence.
\<close>

lemma strided_index:
  assumes "0 < s" and "j < (length xs + s - 1) div s"
  shows "j * s < length xs"
proof -
  from assms(2) have "Suc j \<le> (length xs + s - 1) div s" by simp
  then have "Suc j * s \<le> length xs + s - 1"
    using assms(1) by (simp add: less_eq_div_iff_mult_less_eq)
  then show ?thesis
    using assms(1) by simp
qed

lemma strided_map:
  assumes "0 < s"
  shows "strided (map f xs) s = map f (strided xs s)"
  using strided_index [OF assms, of _ xs] by (simp add: strided_def)

lemma thinned_map: "thinned (map f xs) m = map f (thinned xs m)"
proof (cases "length xs > m \<and> m \<noteq> 0")
  case True
  then have "0 < length xs div m"
    by (simp add: div_greater_zero_iff)
  then show ?thesis
    using True by (simp add: thinned_def strided_map)
next
  case False
  then show ?thesis
    by (auto simp: thinned_def)
qed

lemma set_thinned: "set (thinned xs m) \<subseteq> set xs"
proof (cases "length xs > m \<and> m \<noteq> 0")
  case True
  then have "0 < length xs div m"
    by (simp add: div_greater_zero_iff)
  from set_strided [OF this, of xs] show ?thesis
    using True by (simp add: thinned_def)
next
  case False
  then show ?thesis
    by (auto simp: thinned_def)
qed

lemma ringPoints_raw:
  "ringPoints sz L npl tw layer = map roundPoint (ringRaw sz L npl tw layer)"
  by (simp add: ringPoints_def ringRaw_def)

lemma latticeAll_raw: "latticeAll p = map roundPoint (latticeAllRaw p)"
proof -
  have "ringPoints (lp_size p) (lp_layers p) (lp_nPerLayer p) (lp_twist p) =
          (\<lambda>layer. map roundPoint
             (ringRaw (lp_size p) (lp_layers p) (lp_nPerLayer p) (lp_twist p) layer))"
    by (rule ext) (rule ringPoints_raw)
  then show ?thesis
    by (simp add: latticeAll_def latticeAllRaw_def map_concat comp_def)
qed

lemma generateLatticePoints_raw:
  "generateLatticePoints p = Some (map roundPoint (thinned (latticeAllRaw p) (lp_n p)))"
proof -
  have "generateLatticePoints p = Some (thinned (latticeAll p) (lp_n p))"
    by (simp add: generateLatticePoints_eq thinned_def)
  then show ?thesis
    by (simp only: latticeAll_raw thinned_map)
qed

lemma generateSunflowerPoints_raw:
  "generateSunflowerPoints m a geodesic sz =
     map roundPoint (map (sunflowerRaw m (of_int (round (a * sqrt (real m))))
                            (sunflowerStride geodesic) sz) [1..<Suc m])"
  by (simp add: generateSunflowerPoints_def sunflowerLoop_eq del: upt_Suc)

lemma generatePoints_unrounded:
  "generatePoints g = Some (map roundPoint (unroundedPoints g))"
  by (simp add: generatePoints_def unroundedPoints_def generateLatticePoints_raw
        generateSunflowerPoints_raw del: upt_Suc)

lemma lattice_four_rings_raw:
  "unroundedPoints \<lparr>gp_n = 4, gp_alpha = 0, gp_mode = ''lattice'', gp_size = 25,
      gp_layers = 4, gp_nPerLayer = 0, gp_twist = 0\<rparr> =
     [(0, 0), (25 / 8, 0), (25 / 4, 0), (75 / 8, 0)]"
proof -
  have up: "[0..<4] = [0, 1, 2, 3::nat]"
    by code_simp
  show ?thesis
    by (simp add: unroundedPoints_def latticeAllRaw_def ringRaw_def latticeRaw_def
          thinned_def up)
qed

lemma lattice_four_rings:
  "generatePoints \<lparr>gp_n = 4, gp_alpha = 0, gp_mode = ''lattice'', gp_size = 25,
      gp_layers = 4, gp_nPerLayer = 0, gp_twist = 0\<rparr> =
     Some [(0, 0), (313 / 100, 0), (25 / 4, 0), (469 / 50, 0)]"
  by (simp add: generatePoints_unrounded lattice_four_rings_raw roundPoint_def roundFloat_def
        toFixed_def)

section \<open>Distance from the centre\<close>

lemma phi_pos: "0 < phi"
  by (simp add: phi_def add_pos_nonneg)

lemma hypot_polar: "hypot (r * cos t) (r * sin t) = \<bar>r\<bar>"
proof -
  have "r * cos t * (r * cos t) + r * sin t * (r * sin t) =
          r * r * (cos t * cos t + sin t * sin t)"
    by (simp only: distrib_left mult.assoc mult.left_commute)
  also have "\<dots> = r * r"
    by (simp only: sin_cos_squared_add3 mult_1_right)
  finally show ?thesis
    by (simp add: hypot_def)
qed

lemma hypot_sunflowerRaw:
  "hypot (fst (sunflowerRaw n b s sz k)) (snd (sunflowerRaw n b s sz k)) =
     \<bar>radius (real k) (real n) b * (sz / 2)\<bar>"
  by (simp only: sunflowerRaw_def Let_def fst_conv snd_conv hypot_polar)

lemma hypot_latticeRaw:
  "hypot (fst (latticeRaw s rad tw layer i)) (snd (latticeRaw s rad tw layer i)) = \<bar>rad\<bar>"
  by (simp only: latticeRaw_def Let_def fst_conv snd_conv hypot_polar)

lemma radius_bounds:
  assumes "0 \<le> b" "1 \<le> k" "k \<le> n"
  shows "0 \<le> radius k n b \<and> radius k n b \<le> 1"
proof (cases "k > n - b")
  case True
  then show ?thesis by (simp add: radius_def)
next
  case False
  have num: "0 \<le> k - 1 / 2" using assms by simp
  have "k + b \<le> n" using False by simp
  then have le: "k - 1 / 2 \<le> n - (b + 1) / 2" using assms(1) by (simp add: field_simps)
  have den: "0 < n - (b + 1) / 2" using num le assms by linarith
  have "sqrt (k - 1 / 2) \<le> sqrt (n - (b + 1) / 2)"
    using le by simp
  moreover have "0 < sqrt (n - (b + 1) / 2)"
    using den by simp
  ultimately have "sqrt (k - 1 / 2) / sqrt (n - (b + 1) / 2) \<le> 1"
    by (simp add: divide_le_eq_1)
  moreover have "0 \<le> sqrt (k - 1 / 2) / sqrt (n - (b + 1) / 2)"
    using num den by simp
  ultimately show ?thesis
    using False by (simp add: radius_def)
qed

lemma sunflowerRaw_inside:
  assumes "0 \<le> a" and "1 \<le> k" and "k \<le> m" and "0 \<le> sz"
  shows "hypot (fst (sunflowerRaw m (of_int (round (a * sqrt (real m)))) stride sz k))
           (snd (sunflowerRaw m (of_int (round (a * sqrt (real m)))) stride sz k))
         \<le> sz / 2"
proof -
  have "0 \<le> a * sqrt (real m)"
    using assms(1) by simp
  then have "round (0::real) \<le> round (a * sqrt (real m))"
    by (rule round_mono)
  then have b: "0 \<le> real_of_int (round (a * sqrt (real m)))"
    by simp
  have rb: "0 \<le> radius (real k) (real m) (of_int (round (a * sqrt (real m))))
          \<and> radius (real k) (real m) (of_int (round (a * sqrt (real m)))) \<le> 1"
    using b assms(2,3) by (intro radius_bounds) simp_all
  then have "radius (real k) (real m) (of_int (round (a * sqrt (real m)))) * (sz / 2)
               \<le> 1 * (sz / 2)"
    using assms(4) by (intro mult_right_mono) simp_all
  then have "\<bar>radius (real k) (real m) (of_int (round (a * sqrt (real m)))) * (sz / 2)\<bar>
               \<le> sz / 2"
    using rb assms(4) by (simp add: abs_mult)
  then show ?thesis
    by (simp only: hypot_sunflowerRaw)
qed

lemma latticeAllRaw_inside:
  assumes "r \<in> set (latticeAllRaw p)" and "0 < lp_size p"
  shows "hypot (fst r) (snd r) < lp_size p / 2"
proof -
  from assms(1) obtain layer j where layer: "layer < lp_layers p"
    and r: "r = latticeRaw ((2 * pi) / (1 + real layer * lp_nPerLayer p))
                 ((real layer * lp_size p) / (2 * real (lp_layers p))) (lp_twist p) layer j"
    by (auto simp: latticeAllRaw_def ringRaw_def)
  have "real layer < real (lp_layers p)"
    using layer by simp
  then have "real layer * lp_size p < real (lp_layers p) * lp_size p"
    using assms(2) by simp
  then have ring: "(real layer * lp_size p) / (2 * real (lp_layers p)) < lp_size p / 2"
    using layer by (simp add: field_simps)
  have "0 \<le> (real layer * lp_size p) / (2 * real (lp_layers p))"
    using assms(2) by simp
  then have "\<bar>(real layer * lp_size p) / (2 * real (lp_layers p))\<bar> < lp_size p / 2"
    using ring by (simp only: abs_of_nonneg)
  then show ?thesis
    by (simp only: r hypot_latticeRaw)
qed

section \<open>Distances and their sorted list\<close>

lemma nearestLoop_single: "nearestLoop [p] sz p 0 0 PosInf = PosInf"
  by (subst nearestLoop.simps, subst nearestLoop.simps) simp

lemma hypot_axis: "hypot a 0 = \<bar>a\<bar>"
  by (simp add: hypot_def)

lemma line_distances:
  "distances [(0, 0), (1, 0), (3, 0), (7, 0)] 1 = [Num 1, Num 1, Num 2, Num 4]"
  by (simp add: distances_def nearestLoop.simps hypot_axis)

lemma line_sorted:
  "sortBy jsub (distances [(0, 0), (1, 0), (3, 0), (7, 0)] 1) = [Num 1, Num 1, Num 2, Num 4]"
  by (simp add: line_distances sortBy_def jsub_def)

lemma length_distances: "length (distances points sz) = length points"
  by (simp add: distances_def)

lemma length_insortBy: "length (insortBy cmp x ys) = Suc (length ys)"
  by (induction ys) simp_all

lemma length_sortBy: "length (sortBy cmp xs) = length xs"
  by (induction xs) (simp_all add: sortBy_def length_insortBy)

lemma mset_insortBy: "mset (insortBy cmp x ys) = add_mset x (mset ys)"
  by (induction ys) simp_all

lemma mset_sortBy: "mset (sortBy cmp xs) = mset xs"
  by (induction xs) (simp_all add: sortBy_def mset_insortBy)

lemma jsub_positive: "x \<noteq> NaN \<Longrightarrow> y \<noteq> NaN \<Longrightarrow> jless (Num 0) (jsub x y) = jless y x"
  by (cases x; cases y) (simp_all add: jsub_def)

lemma jle_trans: "b \<noteq> NaN \<Longrightarrow> jle a b \<Longrightarrow> jle b c \<Longrightarrow> jle a c"
  by (cases a; cases b; cases c) (simp_all add: jle_def)

lemma jless_jle: "jless a b \<Longrightarrow> jle a b"
  by (cases a; cases b) (simp_all add: jle_def)

lemma sorted_insortBy:
  assumes "x \<noteq> NaN" and "NaN \<notin> set ys" and "sorted_wrt jle ys"
  shows "sorted_wrt jle (insortBy jsub x ys)"
  using assms
proof (induction ys)
  case Nil
  then show ?case by simp
next
  case (Cons y ys)
  have y: "y \<noteq> NaN" using Cons.prems(2) by auto
  show ?case
  proof (cases "jless y x")
    case True
    have tail: "sorted_wrt jle (insortBy jsub x ys)"
      using Cons by simp
    have "set (insortBy jsub x ys) = insert x (set ys)"
      using mset_insortBy [of jsub x ys] by (metis set_mset_add_mset_insert set_mset_mset)
    then have "\<forall>z \<in> set (insortBy jsub x ys). jle y z"
      using True Cons.prems(3) by (auto intro: jless_jle)
    then show ?thesis
      using True tail by (simp add: jsub_positive [OF Cons.prems(1) y])
  next
    case False
    then have xy: "jle x y" by (simp add: jle_def)
    have "\<forall>z \<in> set ys. jle x z"
      using Cons.prems(3) xy y by (auto intro: jle_trans)
    then show ?thesis
      using False xy Cons.prems(3) by (simp add: jsub_positive [OF Cons.prems(1) y])
  qed
qed

lemma sorted_sortBy: "NaN \<notin> set xs \<Longrightarrow> sorted_wrt jle (sortBy jsub xs)"
proof (induction xs)
  case Nil
  then show ?case by (simp add: sortBy_def)
next
  case (Cons x xs)
  have "NaN \<notin> set (sortBy jsub xs)"
    using Cons.prems mset_sortBy [of jsub xs] by (metis list.set_intros(2) set_mset_mset)
  then have "sorted_wrt jle (insortBy jsub x (sortBy jsub xs))"
    using Cons by (intro sorted_insortBy) auto
  then show ?case
    by (simp add: sortBy_def)
qed

lemma nearestLoop_not_NaN:
  "m \<noteq> NaN \<Longrightarrow> nearestLoop points sz p i j m \<noteq> NaN"
proof (induction points sz p i j m rule: nearestLoop.induct)
  case (1 points size0 point i j minDistance)
  show ?case
  proof (cases "j < length points")
    case False
    then show ?thesis
      using "1.prems" by (subst nearestLoop.simps) simp
  next
    case True
    show ?thesis
    proof (cases "i = j")
      case True
      then show ?thesis
        using \<open>j < length points\<close> "1.IH"(1) "1.prems" by (subst nearestLoop.simps) simp
    next
      case False
      obtain x y where xy: "points ! j = (x, y)"
        by (cases "points ! j")
      define distance where
        "distance = jdiv (Num (hypot (fst point - x) (snd point - y))) (Num size0)"
      have "(if jless distance minDistance then distance else minDistance) \<noteq> NaN"
        using "1.prems" by (cases distance) auto
      from "1.IH"(2) [OF True False xy [symmetric] refl, folded distance_def, OF refl this]
      have "nearestLoop points size0 point i (Suc j)
              (if jless distance minDistance then distance else minDistance) \<noteq> NaN" .
      moreover have "nearestLoop points size0 point i j minDistance =
          nearestLoop points size0 point i (Suc j)
              (if jless distance minDistance then distance else minDistance)"
        using True False xy
        by (subst nearestLoop.simps) (simp add: distance_def Let_def del: jdiv.simps)
      ultimately show ?thesis
        by simp
    qed
  qed
qed

lemma distances_not_NaN: "NaN \<notin> set (distances points sz)"
proof -
  have "nearestLoop points sz p i 0 PosInf \<noteq> NaN" for p i
    by (rule nearestLoop_not_NaN) simp
  then show ?thesis
    by (auto simp: distances_def) metis
qed

section \<open>Properties of the lattice thinning\<close>

text \<open>
  C1: when the rings hold more than \<open>n\<close> points, the thinned result should have at
  most \<open>n\<close> points. With the values the control panel starts from, in lattice mode
  (\<open>n = 50\<close>, five rings, six more points per ring), the rings hold \<open>65\<close> points,
  the stride is \<open>\<lfloor>65 / 50\<rfloor> = 1\<close>, and the result keeps all \<open>65\<close> of them.
\<close>

theorem lattice_thinning_keeps_65_of_50:
  "length (layerLoop 500 5 6 0 0 []) = 65
   \<and> map_option length (generateLatticePoints
      \<lparr>lp_n = 50, lp_size = 500, lp_layers = 5, lp_nPerLayer = 6, lp_twist = 0\<rparr>) = Some 65"
proof -
  have up: "[0..<5] = [0, 1, 2, 3, 4::nat]"
    by code_simp
  have len: "length (latticeAll
      \<lparr>lp_n = 50, lp_size = 500, lp_layers = 5, lp_nPerLayer = 6, lp_twist = 0\<rparr>) = 65"
    by (simp add: length_latticeAll up)
  have "layerLoop 500 5 6 0 0 [] = latticeAll
      \<lparr>lp_n = 50, lp_size = 500, lp_layers = 5, lp_nPerLayer = 6, lp_twist = 0\<rparr>"
    by (simp add: layerLoop_eq latticeAll_def)
  then show ?thesis
    by (simp add: generateLatticePoints_eq len length_strided)
qed

section \<open>Properties of the statistics\<close>

text \<open>
  C2, as the claim states it: for an even number of distances the median would be the
  lower of the two central elements of the sorted list. For four points on a line at
  \<open>0\<close>, \<open>1\<close>, \<open>3\<close> and \<open>7\<close> the sorted distances are \<open>1, 1, 2, 4\<close>; the median
  returned is \<open>2\<close>, the upper central element, and not \<open>1\<close>, the lower one.
\<close>

theorem median_is_not_lower_middle:
  "even (length [(0, 0), (1, 0), (3, 0), (7, 0 :: real) :: real \<times> real])
   \<and> sortBy jsub (distances [(0, 0), (1, 0), (3, 0), (7, 0)] 1) = [Num 1, Num 1, Num 2, Num 4]
   \<and> median (computePointStats [(0, 0), (1, 0), (3, 0), (7, 0)] 1) = Some (Num 2)
   \<and> median (computePointStats [(0, 0), (1, 0), (3, 0), (7, 0)] 1) \<noteq>
       arrayAt (sortBy jsub (distances [(0, 0), (1, 0), (3, 0), (7, 0)] 1))
         (length [(0, 0), (1, 0), (3, 0), (7, 0 :: real) :: real \<times> real] div 2 - 1)"
  by (simp add: computePointStats_def Let_def line_sorted arrayAt_def)

text \<open>
  C2, amended: for every point set that is not empty, the median returned is the
  element at index \<open>\<lfloor>length / 2\<rfloor>\<close>, counted from zero, of the distances sorted in
  ascending order (a sorted rearrangement of the distance list, of the same length):
  the middle element for an odd length, the upper of the two central elements for an
  even length, with no interpolation.
\<close>

theorem median_is_element_at_half_length:
  assumes "points \<noteq> []"
  shows "median (computePointStats points sz) =
           Some (sortBy jsub (distances points sz) ! (length points div 2))
     \<and> length (sortBy jsub (distances points sz)) = length points
     \<and> mset (sortBy jsub (distances points sz)) = mset (distances points sz)
     \<and> sorted_wrt jle (sortBy jsub (distances points sz))"
proof -
  have "length points div 2 < length points"
    using assms by simp
  then have "median (computePointStats points sz) =
           Some (sortBy jsub (distances points sz) ! (length points div 2))"
    by (simp add: computePointStats_def Let_def arrayAt_def length_sortBy length_distances)
  then show ?thesis
    by (simp add: length_sortBy length_distances mset_sortBy sorted_sortBy distances_not_NaN)
qed

theorem median_is_element_at_half_length_witness:
  "[(0, 0), (1, 0), (3, 0), (7, 0 :: real) :: real \<times> real] \<noteq> []
   \<and> median (computePointStats [(0, 0), (1, 0), (3, 0), (7, 0)] 1) =
           Some ([Num 1, Num 1, Num 2, Num 4] ! 2)
   \<and> sorted_wrt jle [Num 1, Num 1, Num 2, Num 4]"
  using median_is_element_at_half_length [of "[(0, 0), (1, 0), (3, 0), (7, 0)]" 1]
  by (simp add: line_sorted)

section \<open>Properties of the sunflower generator\<close>

text \<open>
  C3, as the claim states it: in the geodesic mode the angle handed to the
  trigonometric functions at step \<open>k\<close> would be \<open>k \<cdot> 360 \<cdot> \<phi> \<cdot> \<pi> / 180\<close>. At step
  \<open>1\<close> the angle is \<open>360 \<cdot> \<phi>\<close>, which is another number.
\<close>

theorem geodesic_angle_not_in_radians:
  "sunflowerTheta 1 (sunflowerStride True) \<noteq> 1 * 360 * phi * pi / 180"
proof
  assume "sunflowerTheta 1 (sunflowerStride True) = 1 * 360 * phi * pi / 180"
  then have "360 * phi = 2 * phi * pi"
    by (simp add: sunflowerTheta_def sunflowerStride_def)
  then have "pi = 180"
    using phi_pos by simp
  then show False
    using pi_less_4 by simp
qed

text \<open>
  C3, amended: in the geodesic mode the stride is \<open>360 \<cdot> \<phi>\<close> and the angle of step
  \<open>k\<close> is \<open>k \<cdot> 360 \<cdot> \<phi>\<close>, handed to cosine and sine as it is, with no conversion
  from degrees; in the plain mode the stride is \<open>2\<pi> / \<phi>\<^sup>2\<close>. Each point is the
  rounded pair of radius times cosine and radius times sine of that angle.
\<close>

theorem sunflower_angles_as_used:
  "sunflowerTheta k (sunflowerStride True) = real k * (360 * phi)
   \<and> sunflowerTheta k (sunflowerStride False) = real k * ((2 * pi) / phi ^ 2)
   \<and> generateSunflowerPoints n alpha geodesic sz =
       map (\<lambda>k. (roundFloat
                   (radius (real k) (real n) (of_int (round (alpha * sqrt (real n)))) * (sz / 2)
                    * cos (sunflowerTheta k (sunflowerStride geodesic))) 2,
                 roundFloat
                   (radius (real k) (real n) (of_int (round (alpha * sqrt (real n)))) * (sz / 2)
                    * sin (sunflowerTheta k (sunflowerStride geodesic))) 2))
         [1..<Suc n]"
  by (simp add: sunflowerTheta_def sunflowerStride_def generateSunflowerPoints_def
        sunflowerLoop_eq roundPoint_def sunflowerRaw_def Let_def del: upt_Suc)

text \<open>
  C4: for every point count \<open>n\<close>, every \<open>alpha\<close> and every size, in both sunflower
  modes, \<open>generateSunflowerPoints\<close> returns exactly \<open>n\<close> points: the rounded point of
  step \<open>k\<close> for each \<open>k\<close> from \<open>1\<close> to \<open>n\<close>, in ascending order of \<open>k\<close>; for
  \<open>n = 0\<close> the result is empty.
\<close>

theorem sunflower_one_point_per_step:
  "generateSunflowerPoints n alpha geodesic sz =
     map (\<lambda>k. roundPoint (sunflowerRaw n (of_int (round (alpha * sqrt (real n))))
                  (sunflowerStride geodesic) sz k)) [1..<Suc n]
   \<and> length (generateSunflowerPoints n alpha geodesic sz) = n
   \<and> generateSunflowerPoints 0 alpha geodesic sz = []"
  by (simp add: generateSunflowerPoints_def sunflowerLoop_eq del: upt_Suc)

text \<open>
  C5: for every \<open>n \<ge> 1\<close>, in the plain sunflower mode with \<open>alpha = 0\<close>, the boundary
  count is \<open>0\<close> and the radius factor of the last step \<open>k = n\<close> is exactly \<open>1\<close>; the
  last point of the result is the rounded point of that step, which before rounding
  lies at distance \<open>size / 2\<close> from the centre (the size being a length, not
  negative).
\<close>

theorem sunflower_last_point_on_boundary:
  assumes "1 \<le> n" and "0 \<le> sz"
  shows "round (0 * sqrt (real n)) = 0
     \<and> radius (real n) (real n) (of_int (round (0 * sqrt (real n)))) = 1
     \<and> last (generateSunflowerPoints n 0 False sz) =
         roundPoint (sunflowerRaw n 0 (sunflowerStride False) sz n)
     \<and> hypot (fst (sunflowerRaw n 0 (sunflowerStride False) sz n))
           (snd (sunflowerRaw n 0 (sunflowerStride False) sz n)) = sz / 2"
proof -
  have pos: "0 < real n - 1 / 2"
    using assms(1) by simp
  then have "0 < sqrt (real n - 1 / 2)"
    by simp
  then have r: "radius (real n) (real n) 0 = 1"
    by (simp add: radius_def)
  have l: "last (generateSunflowerPoints n 0 False sz) =
         roundPoint (sunflowerRaw n 0 (sunflowerStride False) sz n)"
    using assms(1) by (simp add: generateSunflowerPoints_def sunflowerLoop_eq Let_def)
  have h: "hypot (fst (sunflowerRaw n 0 (sunflowerStride False) sz n))
           (snd (sunflowerRaw n 0 (sunflowerStride False) sz n)) = sz / 2"
    using assms(2) by (simp add: hypot_sunflowerRaw r)
  show ?thesis
    using r l h by simp
qed

theorem sunflower_last_point_on_boundary_witness:
  "(1::nat) \<le> 5 \<and> (0::real) \<le> 100
     \<and> radius (real 5) (real 5) (of_int (round (0 * sqrt (real 5)))) = 1
     \<and> last (generateSunflowerPoints 5 0 False 100) =
         roundPoint (sunflowerRaw 5 0 (sunflowerStride False) 100 5)
     \<and> hypot (fst (sunflowerRaw 5 0 (sunflowerStride False) 100 5))
           (snd (sunflowerRaw 5 0 (sunflowerStride False) 100 5)) = 100 / 2"
  using sunflower_last_point_on_boundary [of 5 100] by simp

section \<open>Properties of the lattice generator\<close>



section \<open>Boundary cases and all modes\<close>

text \<open>
  C7: \<open>computePointStats\<close> returns a record for a point set of size \<open>0\<close> or \<open>1\<close>,
  with the values its formulas give and no special case: for no point the minimum is
  \<open>Infinity\<close>, the maximum \<open>-Infinity\<close> and the average \<open>NaN\<close>; for one point its
  nearest-neighbour distance is \<open>Infinity\<close>, and so are minimum, maximum, average and
  median.
\<close>

theorem stats_of_tiny_point_sets:
  "computePointStats [] sz =
     \<lparr>average = NaN, median = None, minimum = PosInf, maximum = NegInf,
      maxDiffFromAverageNorm = NaN\<rparr>
   \<and> distances [p] sz = [PosInf]
   \<and> computePointStats [p] sz =
     \<lparr>average = PosInf, median = Some PosInf, minimum = PosInf, maximum = PosInf,
      maxDiffFromAverageNorm = NaN\<rparr>"
proof -
  have d0: "distances [] sz = []"
    by (simp add: distances_def)
  have d1: "distances [p] sz = [PosInf]"
    by (simp add: distances_def nearestLoop_single)
  have s0: "computePointStats [] sz =
     \<lparr>average = NaN, median = None, minimum = PosInf, maximum = NegInf,
      maxDiffFromAverageNorm = NaN\<rparr>"
    by (simp add: computePointStats_def d0 mathMin_def mathMax_def sortBy_def arrayAt_def)
  have s1: "computePointStats [p] sz =
     \<lparr>average = PosInf, median = Some PosInf, minimum = PosInf, maximum = PosInf,
      maxDiffFromAverageNorm = NaN\<rparr>"
    by (simp add: computePointStats_def d1 mathMin_def mathMax_def sortBy_def arrayAt_def
          jmin2_def jmax2_def jsub_def)
  show ?thesis
    using s0 d1 s1 by simp
qed

text \<open>
  C8: \<open>generatePoints\<close> returns a point list for every parameter record, and the empty
  list when the mode is none of \<open>sunflower\<close>, \<open>sunflowerGeodesic\<close> and \<open>lattice\<close>.
\<close>

theorem unknown_mode_gives_no_points:
  "(\<exists>ps. generatePoints g = Some ps) \<and>
   (gp_mode g \<notin> {''sunflower'', ''sunflowerGeodesic'', ''lattice''} \<longrightarrow>
      generatePoints g = Some [])"
  by (simp add: generatePoints_def generateLatticePoints_eq)

theorem unknown_mode_gives_no_points_witness:
  "''hexLattice'' \<notin> {''sunflower'', ''sunflowerGeodesic'', ''lattice''} \<and>
   generatePoints \<lparr>gp_n = 50, gp_alpha = 2, gp_mode = ''hexLattice'', gp_size = 500,
      gp_layers = 5, gp_nPerLayer = 6, gp_twist = 0\<rparr> = Some []"
  using unknown_mode_gives_no_points [of "\<lparr>gp_n = 50, gp_alpha = 2, gp_mode = ''hexLattice'',
      gp_size = 500, gp_layers = 5, gp_nPerLayer = 6, gp_twist = 0\<rparr>"]
  by simp

text \<open>
  C9: every point that \<open>generatePoints\<close> returns, in any mode, is the rounding of one
  of the unrounded points of that mode, so that each of its coordinates is a whole
  number of hundredths (below \<open>10\<^sup>2\<^sup>1\<close> in size, from where \<open>toFixed\<close> writes the
  number itself) and is left as it is by rounding to two decimal places.
\<close>

theorem generated_coordinates_are_rounded:
  assumes "generatePoints g = Some ps" and "(x, y) \<in> set ps"
  shows "(x, y) \<in> roundPoint ` set (unroundedPoints g)
     \<and> (\<bar>x\<bar> < 10 ^ 21 \<longrightarrow> (\<exists>k. x = of_int k / 100))
     \<and> (\<bar>y\<bar> < 10 ^ 21 \<longrightarrow> (\<exists>k. y = of_int k / 100))
     \<and> roundFloat x 2 = x \<and> roundFloat y 2 = y"
proof -
  have "ps = map roundPoint (unroundedPoints g)"
    using assms(1) by (simp add: generatePoints_unrounded)
  then have mem: "(x, y) \<in> roundPoint ` set (unroundedPoints g)"
    using assms(2) by simp
  then obtain r where "(x, y) = roundPoint r"
    by blast
  then have x: "x = roundFloat (fst r) 2" and y: "y = roundFloat (snd r) 2"
    by (simp_all add: roundPoint_def)
  have "\<bar>x\<bar> < 10 ^ 21 \<longrightarrow> (\<exists>k. x = of_int k / 100)"
    unfolding x by (blast intro: roundFloat_hundredths)
  moreover have "\<bar>y\<bar> < 10 ^ 21 \<longrightarrow> (\<exists>k. y = of_int k / 100)"
    unfolding y by (blast intro: roundFloat_hundredths)
  moreover have "roundFloat x 2 = x" "roundFloat y 2 = y"
    unfolding x y by (rule roundFloat_idem)+
  ultimately show ?thesis
    using mem by simp
qed

theorem generated_coordinates_are_rounded_witness:
  "generatePoints \<lparr>gp_n = 4, gp_alpha = 0, gp_mode = ''lattice'', gp_size = 25,
      gp_layers = 4, gp_nPerLayer = 0, gp_twist = 0\<rparr> =
     Some [(0, 0), (313 / 100, 0), (25 / 4, 0), (469 / 50, 0)]
   \<and> (313 / 100, 0) \<in> set [(0, 0), (313 / 100, 0), (25 / 4, 0), (469 / 50, 0 :: real)]
   \<and> (313 / 100, 0) \<in> roundPoint ` set [(0, 0), (25 / 8, 0), (25 / 4, 0), (75 / 8, 0)]
   \<and> (\<exists>k. (313 / 100 :: real) = of_int k / 100)
   \<and> roundFloat (313 / 100) 2 = 313 / 100"
  using generated_coordinates_are_rounded [OF lattice_four_rings, of "313 / 100" 0]
    lattice_four_rings
  by (simp add: lattice_four_rings_raw)

text \<open>
  C10: for \<open>alpha \<ge> 0\<close> and a positive size, \<open>generatePoints\<close> returns the rounded
  points of a sequence of unrounded points that all lie inside or on the circle of
  radius \<open>size / 2\<close> around the origin, in every mode, and strictly inside it in
  lattice mode. In the sunflower modes the radius factor of every step \<open>k\<close> from
  \<open>1\<close> to \<open>n\<close> is at most \<open>1\<close>, for the boundary count \<open>round (alpha \<cdot> \<surd>n)\<close>; in
  lattice mode the radius \<open>layer \<cdot> size / (2 \<cdot> layers)\<close> of every ring
  \<open>layer < layers\<close> is less than \<open>size / 2\<close>.
\<close>

theorem generated_points_inside_circle:
  assumes "0 \<le> gp_alpha g" and "0 < gp_size g"
  shows "generatePoints g = Some (map roundPoint (unroundedPoints g))
     \<and> (\<forall>r \<in> set (unroundedPoints g). hypot (fst r) (snd r) \<le> gp_size g / 2)
     \<and> (gp_mode g = ''lattice'' \<longrightarrow>
          (\<forall>r \<in> set (unroundedPoints g). hypot (fst r) (snd r) < gp_size g / 2))
     \<and> (\<forall>k. 1 \<le> k \<and> k \<le> gp_n g \<longrightarrow>
          radius (real k) (real (gp_n g))
            (of_int (round (gp_alpha g * sqrt (real (gp_n g))))) \<le> 1)
     \<and> (\<forall>layer < gp_layers g.
          (real layer * gp_size g) / (2 * real (gp_layers g)) < gp_size g / 2)"
proof -
  have lat: "hypot (fst r) (snd r) < gp_size g / 2"
    if "gp_mode g = ''lattice''" and "r \<in> set (unroundedPoints g)" for r
  proof -
    from that have "r \<in> set (thinned (latticeAllRaw \<lparr>lp_n = gp_n g, lp_size = gp_size g,
          lp_layers = gp_layers g, lp_nPerLayer = gp_nPerLayer g,
          lp_twist = gp_twist g\<rparr>) (gp_n g))"
      by (simp add: unroundedPoints_def)
    then have "r \<in> set (latticeAllRaw \<lparr>lp_n = gp_n g, lp_size = gp_size g,
          lp_layers = gp_layers g, lp_nPerLayer = gp_nPerLayer g,
          lp_twist = gp_twist g\<rparr>)"
      by (rule subsetD [OF set_thinned])
    from latticeAllRaw_inside [OF this] show ?thesis
      using assms(2) by simp
  qed
  have all: "hypot (fst r) (snd r) \<le> gp_size g / 2"
    if r: "r \<in> set (unroundedPoints g)" for r
  proof (cases "gp_mode g = ''sunflower'' \<or> gp_mode g = ''sunflowerGeodesic''")
    case True
    with r obtain k where "1 \<le> k" "k \<le> gp_n g"
      and "r = sunflowerRaw (gp_n g) (of_int (round (gp_alpha g * sqrt (real (gp_n g)))))
               (sunflowerStride (gp_mode g = ''sunflowerGeodesic'')) (gp_size g) k"
      by (auto simp: unroundedPoints_def simp del: upt_Suc)
    then show ?thesis
      using sunflowerRaw_inside [of "gp_alpha g" k "gp_n g" "gp_size g"] assms by simp
  next
    case False
    show ?thesis
    proof (cases "gp_mode g = ''lattice''")
      case True
      from lat [OF True r] show ?thesis by simp
    next
      case False
      with \<open>\<not> (gp_mode g = ''sunflower'' \<or> gp_mode g = ''sunflowerGeodesic'')\<close> r
      show ?thesis
        by (simp add: unroundedPoints_def)
    qed
  qed
  have rad: "radius (real k) (real (gp_n g))
            (of_int (round (gp_alpha g * sqrt (real (gp_n g))))) \<le> 1"
    if "1 \<le> k" and "k \<le> gp_n g" for k
  proof -
    have "0 \<le> gp_alpha g * sqrt (real (gp_n g))"
      using assms(1) by simp
    then have "round (0::real) \<le> round (gp_alpha g * sqrt (real (gp_n g)))"
      by (rule round_mono)
    then have "0 \<le> real_of_int (round (gp_alpha g * sqrt (real (gp_n g))))"
      by simp
    then show ?thesis
      using that radius_bounds [of "real_of_int (round (gp_alpha g * sqrt (real (gp_n g))))"
          "real k" "real (gp_n g)"]
      by simp
  qed
  have ring: "(real layer * gp_size g) / (2 * real (gp_layers g)) < gp_size g / 2"
    if "layer < gp_layers g" for layer
  proof -
    have "real layer < real (gp_layers g)"
      using that by simp
    then have "real layer * gp_size g < real (gp_layers g) * gp_size g"
      using assms(2) by simp
    then show ?thesis
      using that by (simp add: field_simps)
  qed
  show ?thesis
  proof (intro conjI ballI allI impI)
    show "generatePoints g = Some (map roundPoint (unroundedPoints g))"
      by (rule generatePoints_unrounded)
  next
    fix r assume "r \<in> set (unroundedPoints g)"
    then show "hypot (fst r) (snd r) \<le> gp_size g / 2"
      by (rule all)
  next
    fix r assume "gp_mode g = ''lattice''" and "r \<in> set (unroundedPoints g)"
    then show "hypot (fst r) (snd r) < gp_size g / 2"
      by (rule lat)
  next
    fix k assume "1 \<le> k \<and> k \<le> gp_n g"
    then show "radius (real k) (real (gp_n g))
            (of_int (round (gp_alpha g * sqrt (real (gp_n g))))) \<le> 1"
      using rad by blast
  next
    fix layer assume "layer < gp_layers g"
    then show "(real layer * gp_size g) / (2 * real (gp_layers g)) < gp_size g / 2"
      by (rule ring)
  qed
qed

theorem generated_points_inside_circle_witness:
  "(0::real) \<le> 0 \<and> (0::real) < 25
   \<and> generatePoints \<lparr>gp_n = 4, gp_alpha = 0, gp_mode = ''lattice'', gp_size = 25,
        gp_layers = 4, gp_nPerLayer = 0, gp_twist = 0\<rparr> =
      Some (map roundPoint [(0, 0), (25 / 8, 0), (25 / 4, 0), (75 / 8, 0)])
   \<and> hypot (25 / 8) 0 < 25 / 2 \<and> hypot (25 / 4) 0 < 25 / 2 \<and> hypot (75 / 8) 0 < 25 / 2
   \<and> radius (real 3) (real 4) (of_int (round (0 * sqrt (real 4)))) \<le> 1
   \<and> (real 3 * 25) / (2 * real 4) < 25 / 2"
proof -
  let ?g = "\<lparr>gp_n = 4, gp_alpha = 0, gp_mode = ''lattice'', gp_size = 25,
        gp_layers = 4, gp_nPerLayer = 0, gp_twist = 0\<rparr>"
  have h: "0 \<le> gp_alpha ?g" "0 < gp_size ?g"
    by simp_all
  note t = generated_points_inside_circle [OF h]
  note t1 = t [THEN conjunct1]
  note t3 = t [THEN conjunct2, THEN conjunct2, THEN conjunct1]
  note t4 = t [THEN conjunct2, THEN conjunct2, THEN conjunct2, THEN conjunct1]
  note t5 = t [THEN conjunct2, THEN conjunct2, THEN conjunct2, THEN conjunct2]
  from t1 have "generatePoints ?g = Some (map roundPoint (unroundedPoints ?g))" .
  then have gen: "generatePoints ?g =
      Some (map roundPoint [(0, 0), (25 / 8, 0), (25 / 4, 0), (75 / 8, 0)])"
    by (simp only: lattice_four_rings_raw)
  from t3 have "\<forall>r \<in> set (unroundedPoints ?g). hypot (fst r) (snd r) < gp_size ?g / 2"
    by simp
  then have pts: "hypot (25 / 8) 0 < 25 / 2 \<and> hypot (25 / 4) 0 < 25 / 2
      \<and> hypot (75 / 8) 0 < 25 / 2"
    by (simp add: lattice_four_rings_raw)
  from t4 have "\<forall>k. 1 \<le> k \<and> k \<le> gp_n ?g \<longrightarrow>
          radius (real k) (real (gp_n ?g))
            (of_int (round (gp_alpha ?g * sqrt (real (gp_n ?g))))) \<le> 1" .
  from this [rule_format, of 3]
  have rad: "radius (real 3) (real 4) (of_int (round (0 * sqrt (real 4)))) \<le> 1"
    by simp
  from t5 have "\<forall>layer < gp_layers ?g.
          (real layer * gp_size ?g) / (2 * real (gp_layers ?g)) < gp_size ?g / 2" .
  from this [rule_format, of 3]
  have ring: "(real 3 * 25) / (2 * real 4) < 25 / 2"
    by simp
  show ?thesis
    using gen pts rad ring by simp
qed

end
